theory Spec2Isabelle
  imports Main "HOL-Library.Word"
begin

section \<open>Component identity (depinject.h, lines 64-114)\<close>

text \<open>
  A \<open>std::type_info\<close> object is a token for one C++ type. The header itself declares the
  helper type \<open>depInject_unspecified_component\<close>; every other type of a program using the
  header is a class, numbered here. The helper type has no \<open>INJECT\<close> constructor, so it can
  never be an implementation type (\<open>ConstructorFactory\<close> refuses it at compile time); an
  implementation type is therefore a class number.
\<close>

datatype type_info = Unspecified_component | Class nat

record component_type =
  typeInfo :: type_info
  customName :: string

text \<open>
  What the compiler knows about the types of the program: the implementation-defined
  \<open>std::type_info::name()\<close> and \<open>hash_code()\<close> (a \<open>size_t\<close>), the optional static
  \<open>T::name()\<close> of a class (\<open>has_name\<close>), and the parameter types of the constructor marked
  with \<open>INJECT\<close>, with \<open>std::shared_ptr\<close> trimmed off as \<open>Container::get\<close> does.
\<close>

record type_env =
  type_info_name :: "type_info \<Rightarrow> string"
  type_info_hash_code :: "type_info \<Rightarrow> 64 word"
  static_name :: "nat \<Rightarrow> string option"
  ConstructorTypedef :: "nat \<Rightarrow> type_info list"

definition name :: "type_env \<Rightarrow> component_type \<Rightarrow> string" where
  "name env t = (if customName t = [] then type_info_name env (typeInfo t) else customName t)"

definition specified :: "component_type \<Rightarrow> bool" where
  "specified t = (typeInfo t \<noteq> Unspecified_component)"

definition make_component_type :: "type_info \<Rightarrow> string \<Rightarrow> component_type" where
  "make_component_type T cname = \<lparr>typeInfo = T, customName = cname\<rparr>"

text \<open>\<open>operator==\<close> on \<open>component_type\<close> and \<open>component_type_hash\<close>.\<close>

definition component_type_eq :: "component_type \<Rightarrow> component_type \<Rightarrow> bool" where
  "component_type_eq first other = (typeInfo first = typeInfo other)"

definition component_type_hash :: "type_env \<Rightarrow> component_type \<Rightarrow> 64 word" where
  "component_type_hash env t = type_info_hash_code env (typeInfo t)"

text \<open>\<open>type_name<T>::value()\<close>: \<open>T::name()\<close> when the class has one, else \<open>typeid(T).name()\<close>.\<close>

definition type_name :: "type_env \<Rightarrow> nat \<Rightarrow> string" where
  "type_name env T = (case static_name env T of Some n \<Rightarrow> n | None \<Rightarrow> type_info_name env (Class T))"

section \<open>Exceptions (lines 116-129)\<close>

text \<open>Both exceptions are \<open>std::logic_error\<close>s; the value kept is the message \<open>what()\<close>.\<close>

datatype error = CircularDependencyFound string | ComponentNotFoundException string

definition new_CircularDependencyFound :: "type_env \<Rightarrow> component_type \<Rightarrow> error" where
  "new_CircularDependencyFound env t =
     CircularDependencyFound (''Found circular dependency on object '' @ [CHR 0x27] @ name env t @ [CHR 0x27])"

definition new_ComponentNotFoundException :: "type_env \<Rightarrow> component_type \<Rightarrow> error" where
  "new_ComponentNotFoundException env t =
     ComponentNotFoundException (''Component for interface '' @ [CHR 0x27] @ name env t @ [CHR 0x27] @ '' not found'')"

text \<open>
  How a call ends. \<open>Returns\<close> and \<open>Throws\<close> are the two ways the C++ can end.
  \<open>Undefined\<close> stands for a pointer that names no live object (a dangling parent
  container, \<open>back()\<close> of an empty vector), where C++ defines no behaviour.
  \<open>OutOfFuel\<close> belongs to the model only: the recursion of the resolver is cut at a
  given depth of nested constructions, and the theorems below show which depth is enough.
\<close>

datatype 'a outcome = Returns 'a | Throws error | Undefined | OutOfFuel

text \<open>An exception, or the absence of a result, passes through a caller unchanged.\<close>

fun propagate :: "'a outcome \<Rightarrow> 'b outcome" where
  "propagate (Throws e) = Throws e"
| "propagate OutOfFuel = OutOfFuel"
| "propagate _ = Undefined"

section \<open>The store: containers, instance storages, constructed objects\<close>

text \<open>
  Containers and instance storages are mutable objects reached through pointers
  (\<open>Container*\<close>, \<open>std::shared_ptr<InstanceStorage>\<close>), so they live in a store and a
  pointer is an index into it. Objects are numbered in the order \<open>std::make_shared\<close>
  creates them; the number is the identity of the instance.

  An \<open>IInstanceRetriever\<close> is a \<open>CastInstanceRetriever\<close> holding the pointer to its
  storage; its \<open>forwardInstance\<close> calls \<open>getInstance\<close> of that storage and casts the result
  up to the interface, which keeps the object. A retriever is therefore the index of its
  storage. Of an \<open>InstanceStorage<TImplementation, TFactory>\<close> the store keeps the
  implementation type \<open>impl\<close> and the two data members; its \<open>factory_\<close> has no state.
\<close>

record InstanceStorage =
  impl :: nat
  mIsSingleton :: bool
  mInstance :: "nat option"

record Container =
  parentContainer :: "nat option"
  registrations :: "type_info \<rightharpoonup> nat list"

record object =
  object_class :: nat
  constructor_arguments :: "nat list"

text \<open>
  \<open>factory_calls\<close> is an observation, not a field of the program: the storages whose
  \<open>factory_.createInstance\<close> has been entered, in order.
\<close>

record state =
  containers :: "Container list"
  storages :: "InstanceStorage list"
  objects :: "object list"
  factory_calls :: "nat list"

section \<open>Resolution context and its guard (lines 133-171)\<close>

record InjectionContext =
  container :: nat
  componentStack :: "component_type list"

definition pushType :: "InjectionContext \<Rightarrow> component_type \<Rightarrow> InjectionContext" where
  "pushType context t = context\<lparr>componentStack := componentStack context @ [t]\<rparr>"

text \<open>\<open>pop_back\<close> is only ever called after a matching \<open>emplace_back\<close>.\<close>

definition popType :: "InjectionContext \<Rightarrow> InjectionContext" where
  "popType context = context\<lparr>componentStack := butlast (componentStack context)\<rparr>"

definition new_InjectionContext :: "nat \<Rightarrow> component_type \<Rightarrow> InjectionContext" where
  "new_InjectionContext this requesterComponent =
     pushType \<lparr>container = this, componentStack = []\<rparr> requesterComponent"

text \<open>
  The loop of \<open>ContextGuard::ensureNoCycle\<close>, from index \<open>i\<close> on:
  \<open>for (; i < stack.size() - 1; ++i) if (stack[i] == stack.back()) throw ...\<close>.
  The result is the exception thrown, if any.
\<close>

function ensureNoCycle_loop :: "type_env \<Rightarrow> component_type list \<Rightarrow> nat \<Rightarrow> error option" where
  "ensureNoCycle_loop env stack i =
     (if i < length stack - 1 then
        (if component_type_eq (stack ! i) (last stack)
         then Some (new_CircularDependencyFound env (last stack))
         else ensureNoCycle_loop env stack (Suc i))
      else None)"
  by pat_completeness auto
termination
  by (relation "measure (\<lambda>(env, stack, i). length stack - i)") auto

declare ensureNoCycle_loop.simps [simp del]

text \<open>
  On an empty stack \<open>stack.size() - 1\<close> wraps around and \<open>stack[0]\<close> is read out of
  range; the guard has pushed its frame before, so the only caller never gets there.
\<close>

definition ensureNoCycle :: "type_env \<Rightarrow> InjectionContext \<Rightarrow> unit outcome" where
  "ensureNoCycle env context =
     (if componentStack context = [] then Undefined
      else case ensureNoCycle_loop env (componentStack context) 0 of
             Some e \<Rightarrow> Throws e
           | None \<Rightarrow> Returns ())"

section \<open>Container (lines 202-262)\<close>

text \<open>
  \<open>Container::findInstanceRetrievers\<close> appends to the vector it is given the retrievers
  registered here for the type, then those of the parent chain. \<open>parentContainer\<close> is
  set by the constructor only, to a container that exists already, that is, to a smaller
  index; any other pointer is dangling.
\<close>

function findInstanceRetrievers ::
  "Container list \<Rightarrow> nat \<Rightarrow> nat list \<Rightarrow> component_type \<Rightarrow> nat list option" where
  "findInstanceRetrievers cs this instanceRetrievers t =
     (if this < length cs then
        (let instanceRetrievers' =
               (case registrations (cs ! this) (typeInfo t) of
                  Some currentRetrievers \<Rightarrow> instanceRetrievers @ currentRetrievers
                | None \<Rightarrow> instanceRetrievers)
         in case parentContainer (cs ! this) of
              None \<Rightarrow> Some instanceRetrievers'
            | Some parent \<Rightarrow>
                if parent < this then findInstanceRetrievers cs parent instanceRetrievers' t
                else None)
      else None)"
  by pat_completeness auto
termination
  by (relation "measure (\<lambda>(cs, this, acc, t). this)") auto

declare findInstanceRetrievers.simps [simp del]

section \<open>Resolution (lines 220-243 and 264-324)\<close>

text \<open>
  The five functions below call each other as in the header:
  \<^item> \<open>get_with\<close> is the body of \<open>Container::get<TInterface>(context)\<close> once a context
    exists; \<open>forwardInstance\<close> of the first retriever is \<open>getInstance\<close> of its storage;
  \<^item> \<open>getInstance\<close> and \<open>createInstance\<close> are the methods of \<open>InstanceStorage\<close>; the
    \<open>ContextGuard\<close> of \<open>createInstance\<close> pushes in its constructor and pops in its
    destructor, which runs on return and while an exception unwinds;
  \<^item> \<open>invoke\<close> is \<open>ConstructorInvoker::invoke\<close>, reached through
    \<open>ConstructorFactory::createInstance\<close>, and \<open>get_arguments\<close> is the pack expansion
    \<open>container.get<TConstructorArgs>(context)...\<close>. C++ does not fix the order in which
    the arguments of the constructor call are evaluated; they are taken here from left to
    right, in declaration order.
  The fuel counts constructions that may still be nested inside one another.
\<close>

function (sequential) get_with ::
    "type_env \<Rightarrow> nat \<Rightarrow> nat \<Rightarrow> type_info \<Rightarrow> InjectionContext \<Rightarrow> state
       \<Rightarrow> nat outcome \<times> InjectionContext \<times> state"
  and getInstance ::
    "type_env \<Rightarrow> nat \<Rightarrow> nat \<Rightarrow> InjectionContext \<Rightarrow> state
       \<Rightarrow> nat outcome \<times> InjectionContext \<times> state"
  and createInstance ::
    "type_env \<Rightarrow> nat \<Rightarrow> nat \<Rightarrow> InjectionContext \<Rightarrow> state
       \<Rightarrow> nat outcome \<times> InjectionContext \<times> state"
  and invoke ::
    "type_env \<Rightarrow> nat \<Rightarrow> nat \<Rightarrow> InjectionContext \<Rightarrow> state
       \<Rightarrow> nat outcome \<times> InjectionContext \<times> state"
  and get_arguments ::
    "type_env \<Rightarrow> nat \<Rightarrow> nat \<Rightarrow> type_info list \<Rightarrow> InjectionContext \<Rightarrow> state
       \<Rightarrow> nat list outcome \<times> InjectionContext \<times> state"
where
  "get_with env fuel this TInterface context st =
     (case findInstanceRetrievers (containers st) this [] (make_component_type TInterface []) of
        None \<Rightarrow> (Undefined, context, st)
      | Some [] \<Rightarrow>
          (Throws (new_ComponentNotFoundException env (make_component_type TInterface [])),
           context, st)
      | Some (retriever # _) \<Rightarrow>
          if retriever < length (storages st)
          then getInstance env fuel retriever context st
          else (Undefined, context, st))"
| "getInstance env fuel storage context st =
     (if \<not> mIsSingleton (storages st ! storage)
      then createInstance env fuel storage context st
      else case mInstance (storages st ! storage) of
             Some instance \<Rightarrow> (Returns instance, context, st)
           | None \<Rightarrow>
               (case createInstance env fuel storage context st of
                  (Returns instance, context', st') \<Rightarrow>
                    (Returns instance, context',
                     st'\<lparr>storages := (storages st')
                            [storage := (storages st' ! storage)\<lparr>mInstance := Some instance\<rparr>]\<rparr>)
                | (r, context', st') \<Rightarrow> (propagate r, context', st')))"
| "createInstance env fuel storage context st =
     (let TImplementation = impl (storages st ! storage);
          guard = pushType context
                    (make_component_type (Class TImplementation) (type_name env TImplementation))
      in case ensureNoCycle env guard of
           Returns _ \<Rightarrow>
             (case fuel of
                0 \<Rightarrow> (OutOfFuel, popType guard, st)
              | Suc fuel' \<Rightarrow>
                  (case invoke env fuel' TImplementation guard
                          (st\<lparr>factory_calls := factory_calls st @ [storage]\<rparr>) of
                     (r, context', st') \<Rightarrow> (r, popType context', st')))
         | r \<Rightarrow> (propagate r, popType guard, st))"
| "invoke env fuel TInstance context st =
     (case get_arguments env fuel (container context) (ConstructorTypedef env TInstance)
             context st of
        (Returns arguments, context', st') \<Rightarrow>
          (Returns (length (objects st')), context',
           st'\<lparr>objects := objects st' @
                  [\<lparr>object_class = TInstance, constructor_arguments = arguments\<rparr>]\<rparr>)
      | (r, context', st') \<Rightarrow> (propagate r, context', st'))"
| "get_arguments env fuel this [] context st = (Returns [], context, st)"
| "get_arguments env fuel this (T # Ts) context st =
     (case get_with env fuel this T context st of
        (Returns a, context', st') \<Rightarrow>
          (case get_arguments env fuel this Ts context' st' of
             (Returns as, context'', st'') \<Rightarrow> (Returns (a # as), context'', st'')
           | (r, context'', st'') \<Rightarrow> (propagate r, context'', st''))
      | (r, context', st') \<Rightarrow> (propagate r, context', st'))"
  by pat_completeness auto
termination
  by (relation "inv_image (less_than <*lex*> less_than <*lex*> less_than)
       (case_sum
          (case_sum (\<lambda>(env, fuel, rest). (fuel, 2::nat, 0::nat))
                    (\<lambda>(env, fuel, rest). (fuel, 1, 0)))
          (case_sum (\<lambda>(env, fuel, rest). (fuel, 0, 0))
             (case_sum (\<lambda>(env, fuel, rest). (fuel, 4, 0))
                       (\<lambda>(env, fuel, this, Ts, rest). (fuel, 3, length Ts)))))")
     auto

declare get_with.simps [simp del] getInstance.simps [simp del] createInstance.simps [simp del]
  invoke.simps [simp del]

text \<open>
  \<open>Container::get<TInterface>(context)\<close>. Without a context the call is a top-level one:
  it makes a context of its own, with the frame of the unspecified requester, uses it for
  the whole call tree and destroys it at the end (the destructor pops that frame), also
  when an exception passes. \<open>get<std::shared_ptr<T>>\<close> is \<open>get<T>\<close>.
\<close>

definition get ::
  "type_env \<Rightarrow> nat \<Rightarrow> nat \<Rightarrow> type_info \<Rightarrow> InjectionContext option \<Rightarrow> state
     \<Rightarrow> nat outcome \<times> InjectionContext option \<times> state" where
  "get env fuel this TInterface context st =
     (case context of
        None \<Rightarrow>
          (let contextPtr = new_InjectionContext this
                              (make_component_type Unspecified_component ''Unspecified'')
           in case get_with env fuel this TInterface contextPtr st of
                (r, contextPtr', st') \<Rightarrow> (r, None, st'))
      | Some c \<Rightarrow>
          (case get_with env fuel this TInterface c st of
             (r, c', st') \<Rightarrow> (r, Some c', st')))"

section \<open>Registration (lines 207-211 and 326-388)\<close>

text \<open>The two constructors of \<open>Container\<close>; the result is the address of the new container.\<close>

definition new_Container :: "nat option \<Rightarrow> state \<Rightarrow> nat \<times> state" where
  "new_Container parent st =
     (length (containers st),
      st\<lparr>containers := containers st @ [\<lparr>parentContainer = parent, registrations = Map.empty\<rparr>]\<rparr>)"

text \<open>
  \<open>bind<TComponent>().to<TImplementation>()\<close> on the container \<open>this\<close>: a new transient
  storage for the implementation, and a retriever for it put at the end of the vector kept
  under the component's type (\<open>operator[]\<close> makes the vector when the key is new). The
  result is the \<open>StorageConfiguration\<close>, which holds the pointer to the new storage.
  The two static assertions (the implementation converts to the component and has an
  \<open>INJECT\<close> constructor) are checked by the compiler. The builder's container pointer
  names a container of the store; the properties below say so where they need it.
\<close>

definition registerType :: "nat \<Rightarrow> type_info \<Rightarrow> nat \<Rightarrow> Container list \<Rightarrow> Container list" where
  "registerType this TComponent instanceStorage cs =
     cs[this := (cs ! this)\<lparr>registrations :=
          (registrations (cs ! this))
            (TComponent \<mapsto>
               (case registrations (cs ! this) TComponent of
                  None \<Rightarrow> [instanceStorage]
                | Some retrievers \<Rightarrow> retrievers @ [instanceStorage]))\<rparr>]"

definition to :: "nat \<Rightarrow> type_info \<Rightarrow> nat \<Rightarrow> state \<Rightarrow> nat \<times> state" where
  "to this TComponent TImplementation st =
     (let instanceStorage = length (storages st)
      in (instanceStorage,
          st\<lparr>storages := storages st @
                 [\<lparr>impl = TImplementation, mIsSingleton = False, mInstance = None\<rparr>],
             containers := registerType this TComponent instanceStorage (containers st)\<rparr>))"

definition ToSelf :: "nat \<Rightarrow> nat \<Rightarrow> state \<Rightarrow> nat \<times> state" where
  "ToSelf this TImplementation st = to this (Class TImplementation) TImplementation st"

definition setSingleton :: "nat \<Rightarrow> bool \<Rightarrow> state \<Rightarrow> state" where
  "setSingleton storage v st =
     st\<lparr>storages := (storages st)[storage := (storages st ! storage)\<lparr>mIsSingleton := v\<rparr>]\<rparr>"

definition InSingletonScope :: "nat \<Rightarrow> state \<Rightarrow> state" where
  "InSingletonScope storage st = setSingleton storage True st"

section \<open>What a resolution may change\<close>

text \<open>
  \<open>extends st st'\<close>: the state \<open>st'\<close> differs from \<open>st\<close> at most by singleton caches
  that were empty and are now filled, by newly constructed objects and by further factory
  calls. Containers, their registration tables, the implementation type and the lifetime
  flag of every storage, a filled cache and the cache of a transient storage are the same.
\<close>

definition extends :: "state \<Rightarrow> state \<Rightarrow> bool" where
  "extends st st' \<longleftrightarrow>
     containers st' = containers st \<and>
     length (storages st') = length (storages st) \<and>
     (\<forall>s < length (storages st).
        impl (storages st' ! s) = impl (storages st ! s) \<and>
        mIsSingleton (storages st' ! s) = mIsSingleton (storages st ! s) \<and>
        (mInstance (storages st ! s) \<noteq> None \<or> \<not> mIsSingleton (storages st ! s)
           \<longrightarrow> mInstance (storages st' ! s) = mInstance (storages st ! s))) \<and>
     (\<exists>new. objects st' = objects st @ new) \<and>
     (\<exists>new. factory_calls st' = factory_calls st @ new)"


section \<open>The store as the program keeps it\<close>

text \<open>
  The containers \<open>findInstanceRetrievers\<close> visits from \<open>this\<close>: the container itself,
  then its parent chain.
\<close>

function parent_chain :: "Container list \<Rightarrow> nat \<Rightarrow> nat list" where
  "parent_chain cs this =
     (if this < length cs then
        this # (case parentContainer (cs ! this) of
                  None \<Rightarrow> []
                | Some parent \<Rightarrow> if parent < this then parent_chain cs parent else [])
      else [])"
  by pat_completeness auto
termination
  by (relation "measure (\<lambda>(cs, this). this)") auto

declare parent_chain.simps [simp del]

text \<open>The binding records one container holds for an identity, in registration order.\<close>

definition bindings :: "Container \<Rightarrow> type_info \<Rightarrow> nat list" where
  "bindings c T = (case registrations c T of None \<Rightarrow> [] | Some retrievers \<Rightarrow> retrievers)"

text \<open>
  No pointer dangles: a parent was constructed before its child, and every retriever
  holds a storage that exists (the \<open>shared_ptr\<close> keeps it alive).
\<close>

definition valid_store :: "state \<Rightarrow> bool" where
  "valid_store st \<longleftrightarrow>
     (\<forall>c < length (containers st).
        (\<forall>parent. parentContainer (containers st ! c) = Some parent \<longrightarrow> parent < c) \<and>
        (\<forall>T. \<forall>s \<in> set (bindings (containers st ! c) T). s < length (storages st)))"

text \<open>
  The dependency graph seen from a container: the binding that answers an identity is the
  first candidate, and the identity requires every constructor parameter of that
  binding's implementation.
\<close>

definition first_candidate :: "state \<Rightarrow> nat \<Rightarrow> type_info \<Rightarrow> nat option" where
  "first_candidate st this T =
     (case findInstanceRetrievers (containers st) this [] (make_component_type T []) of
        Some (retriever # _) \<Rightarrow> Some retriever
      | _ \<Rightarrow> None)"



text \<open>The implementation types under construction according to a context stack.\<close>

definition on_stack :: "InjectionContext \<Rightarrow> type_info set" where
  "on_stack c = typeInfo ` set (componentStack c)"

definition implementation_types :: "state \<Rightarrow> type_info set" where
  "implementation_types st = (\<lambda>s. Class (impl s)) ` set (storages st)"

text \<open>
  The factory calls made between \<open>st\<close> and \<open>st'\<close> are all calls of storages whose
  implementation type is not under construction according to the context \<open>c\<close>.
\<close>

definition calls_off_stack :: "InjectionContext \<Rightarrow> state \<Rightarrow> state \<Rightarrow> bool" where
  "calls_off_stack c st st' \<longleftrightarrow>
     (\<exists>new. factory_calls st' = factory_calls st @ new \<and>
            (\<forall>x \<in> set new. x < length (storages st) \<and>
                              Class (impl (storages st ! x)) \<notin> on_stack c))"

text \<open>A call completes when it returns or throws.\<close>

definition completes :: "'a outcome \<Rightarrow> bool" where
  "completes r = (case r of Returns a \<Rightarrow> True | Throws e \<Rightarrow> True | _ \<Rightarrow> False)"








section \<open>Example programs\<close>

text \<open>
  The classes of \<open>tests.cpp\<close> (\<open>IRunner\<close> 0, \<open>Cheetah\<close> 1, \<open>INest\<close> 2, \<open>SpiderNest\<close> 3,
  \<open>Spider\<close> 4, \<open>Start\<close> 5, \<open>Middle\<close> 6, \<open>End\<close> 7) and five more for programs with a
  parent and a child container: an interface \<open>IService\<close> 8, a class \<open>Client\<close> 9 whose
  constructor takes an \<open>IService\<close>, and three services, \<open>PlainService\<close> 10 and
  \<open>OtherService\<close> 12 without constructor parameters and \<open>ClientService\<close> 11 whose
  constructor takes a \<open>Client\<close>.
\<close>

definition empty_state :: state where
  "empty_state = \<lparr>containers = [], storages = [], objects = [], factory_calls = []\<rparr>"

definition example_name :: "nat \<Rightarrow> string" where
  "example_name n =
     (if n = 0 then ''IRunner'' else if n = 1 then ''Cheetah'' else if n = 2 then ''INest''
      else if n = 3 then ''SpiderNest'' else if n = 4 then ''Spider'' else if n = 5 then ''Start''
      else if n = 6 then ''Middle'' else if n = 7 then ''End'' else if n = 8 then ''IService''
      else if n = 9 then ''Client'' else if n = 10 then ''PlainService''
      else if n = 11 then ''ClientService'' else ''OtherService'')"

definition example_env :: type_env where
  "example_env =
     \<lparr>type_info_name = (\<lambda>t. case t of Unspecified_component \<Rightarrow> ''depInject_unspecified_component''
                                   | Class n \<Rightarrow> example_name n),
      type_info_hash_code = (\<lambda>t. case t of Unspecified_component \<Rightarrow> 0 | Class n \<Rightarrow> of_nat (Suc n)),
      static_name = (\<lambda>n. None),
      ConstructorTypedef =
        (\<lambda>n. if n = 4 then [Class 2] else if n = 5 then [Class 6] else if n = 6 then [Class 7]
              else if n = 7 then [Class 5] else if n = 9 then [Class 8]
              else if n = 11 then [Class 9] else [])\<rparr>"

text \<open>\<open>TestCircularDependency\<close>: \<open>Start\<close>, \<open>Middle\<close> and \<open>End\<close> bound to themselves.\<close>

definition circular_state :: state where
  "circular_state =
     (let (c, st) = new_Container None empty_state;
          (h, st) = ToSelf c 5 st;
          (h, st) = ToSelf c 6 st;
          (h, st) = ToSelf c 7 st
      in st)"


text \<open>\<open>TestSimpleResolve\<close> and \<open>TestSimpleResolve__Singleton\<close>.\<close>

definition simple_state :: state where
  "simple_state =
     (let (c, st) = new_Container None empty_state;
          (h, st) = to c (Class 0) 1 st
      in st)"

definition singleton_state :: state where
  "singleton_state =
     (let (c, st) = new_Container None empty_state;
          (h, st) = to c (Class 0) 1 st
      in InSingletonScope h st)"

text \<open>
  A parent container binding \<open>IService\<close> to \<open>PlainService\<close> and \<open>Client\<close> to itself, and a
  child of it binding \<open>IService\<close> to \<open>OtherService\<close>.
\<close>

definition hierarchy_state :: state where
  "hierarchy_state =
     (let (parent, st) = new_Container None empty_state;
          (h, st) = to parent (Class 8) 10 st;
          (h, st) = ToSelf parent 9 st;
          (child, st) = new_Container (Some parent) st;
          (h, st) = to child (Class 8) 12 st
      in st)"


section \<open>Properties: the frame of a resolution\<close>

lemma extends_refl: "extends st st"
  by (simp add: extends_def)

lemma extendsD:
  assumes "extends a b"
  shows "containers b = containers a" "length (storages b) = length (storages a)"
    "s < length (storages a) \<Longrightarrow> impl (storages b ! s) = impl (storages a ! s)"
    "s < length (storages a) \<Longrightarrow> mIsSingleton (storages b ! s) = mIsSingleton (storages a ! s)"
    "s < length (storages a) \<Longrightarrow> mInstance (storages a ! s) = Some v \<Longrightarrow> mInstance (storages b ! s) = Some v"
    "s < length (storages a) \<Longrightarrow> \<not> mIsSingleton (storages a ! s) \<Longrightarrow> mInstance (storages b ! s) = mInstance (storages a ! s)"
    "\<exists>new. objects b = objects a @ new"
    "\<exists>new. factory_calls b = factory_calls a @ new"
  using assms by (auto simp: extends_def)

lemma extends_trans:
  assumes ab: "extends a b" and bc: "extends b c"
  shows "extends a c"
proof -
  note A = extendsD [OF ab] and B = extendsD [OF bc]
  have "\<forall>s < length (storages a).
        impl (storages c ! s) = impl (storages a ! s) \<and>
        mIsSingleton (storages c ! s) = mIsSingleton (storages a ! s) \<and>
        (mInstance (storages a ! s) \<noteq> None \<or> \<not> mIsSingleton (storages a ! s)
           \<longrightarrow> mInstance (storages c ! s) = mInstance (storages a ! s))"
    using A(2-6) B(2-6) by (metis not_None_eq)
  moreover have "\<exists>new. objects c = objects a @ new"
    using A(7) B(7) by (elim exE) simp
  moreover have "\<exists>new. factory_calls c = factory_calls a @ new"
    using A(8) B(8) by (elim exE) simp
  ultimately show ?thesis using A(1,2) B(1,2) unfolding extends_def by simp
qed

lemma extends_cache:
  "extends st st' \<Longrightarrow> mIsSingleton (storages st ! storage) \<Longrightarrow>
   mInstance (storages st ! storage) = None \<Longrightarrow>
   extends st (st'\<lparr>storages := (storages st')
                 [storage := (storages st' ! storage)\<lparr>mInstance := v\<rparr>]\<rparr>)"
proof -
  assume ext: "extends st st'" and sing: "mIsSingleton (storages st ! storage)"
    and none: "mInstance (storages st ! storage) = None"
  let ?X = "(storages st')[storage := (storages st' ! storage)\<lparr>mInstance := v\<rparr>]"
  have X: "impl (?X ! s) = impl (storages st' ! s)"
    "mIsSingleton (?X ! s) = mIsSingleton (storages st' ! s)"
    "s \<noteq> storage \<Longrightarrow> mInstance (?X ! s) = mInstance (storages st' ! s)"
    if "s < length (storages st')" for s
    using that by (cases "s = storage"; simp)+
  note E = extendsD [OF ext]
  have "impl (?X ! s) = impl (storages st ! s) \<and>
        mIsSingleton (?X ! s) = mIsSingleton (storages st ! s) \<and>
        (mInstance (storages st ! s) \<noteq> None \<or> \<not> mIsSingleton (storages st ! s)
           \<longrightarrow> mInstance (?X ! s) = mInstance (storages st ! s))"
    if s: "s < length (storages st)" for s
  proof (cases "s = storage")
    case True
    with s sing none E(2-4) X(1,2) show ?thesis by simp
  next
    case False
    with s E(2-6) X [of s] show ?thesis by auto
  qed
  then show ?thesis
    using E(1,2,7,8) unfolding extends_def by simp
qed

lemma extends_object: "extends st (st\<lparr>objects := objects st @ new\<rparr>)"
  by (simp add: extends_def)

lemma extends_call: "extends st (st\<lparr>factory_calls := factory_calls st @ new\<rparr>)"
  by (simp add: extends_def)

lemma pop_push [simp]: "popType (pushType c t) = c"
  by (simp add: popType_def pushType_def)

lemma resolution_frame:
  "fst (snd (get_with env fuel this T context st)) = context \<and>
   extends st (snd (snd (get_with env fuel this T context st)))"
  "fst (snd (getInstance env fuel storage context st)) = context \<and>
   extends st (snd (snd (getInstance env fuel storage context st)))"
  "fst (snd (createInstance env fuel storage context st)) = context \<and>
   extends st (snd (snd (createInstance env fuel storage context st)))"
  "fst (snd (invoke env fuel TInstance context st)) = context \<and>
   extends st (snd (snd (invoke env fuel TInstance context st)))"
  "fst (snd (get_arguments env fuel this Ts context st)) = context \<and>
   extends st (snd (snd (get_arguments env fuel this Ts context st)))"
proof (induction env fuel this T "context" st and env fuel storage "context" st
         and env fuel storage "context" st and env fuel TInstance "context" st
         and env fuel this Ts "context" st
       rule: get_with_getInstance_createInstance_invoke_get_arguments.induct)
  case (1 env fuel this TInterface ctx st)
  then show ?case
    by (auto simp: get_with.simps extends_refl split: option.splits list.splits)
next
  case (2 env fuel storage ctx st)
  show ?case
  proof (cases "mIsSingleton (storages st ! storage)")
    case False
    with 2(1) show ?thesis by (simp add: getInstance.simps)
  next
    case True
    show ?thesis
    proof (cases "mInstance (storages st ! storage)")
      case (Some a)
      with True show ?thesis by (simp add: getInstance.simps extends_refl)
    next
      case None
      obtain r c' st' where ci: "createInstance env fuel storage ctx st = (r, c', st')"
        by (cases "createInstance env fuel storage ctx st") auto
      from 2(2) True None ci have c': "c' = ctx" and ext: "extends st st'" by simp_all
      show ?thesis
      proof (cases r)
        case (Returns a)
        have "extends st (st'\<lparr>storages := (storages st')
                          [storage := (storages st' ! storage)\<lparr>mInstance := Some a\<rparr>]\<rparr>)"
          using ext True None by (rule extends_cache)
        with Returns True None ci c' show ?thesis by (simp add: getInstance.simps)
      qed (use True None ci c' ext in \<open>simp_all add: getInstance.simps\<close>)
    qed
  qed
next
  case (3 env fuel storage ctx st)
  show ?case
  proof (cases "ensureNoCycle env (pushType ctx (make_component_type (Class (impl (storages st ! storage))) (type_name env (impl (storages st ! storage)))))")
    case (Returns u)
    show ?thesis
    proof (cases fuel)
      case 0
      with Returns show ?thesis by (simp add: createInstance.simps extends_refl Let_def)
    next
      case (Suc n)
      have "extends st (st\<lparr>factory_calls := factory_calls st @ [storage]\<rparr>)" by (rule extends_call)
      with 3 [OF refl refl Returns Suc] Returns Suc show ?thesis
        by (auto simp: createInstance.simps Let_def split: prod.splits intro: extends_trans)
    qed
  qed (simp_all add: createInstance.simps extends_refl Let_def)
next
  case (4 env fuel TInstance ctx st)
  then show ?case
    by (auto simp: invoke.simps split: prod.splits outcome.splits intro: extends_trans [OF _ extends_object])
next
  case (5 env fuel this ctx st)
  then show ?case by (simp add: extends_refl)
next
  case (6 env fuel this T Ts ctx st)
  obtain r c' st' where g: "get_with env fuel this T ctx st = (r, c', st')"
    by (cases "get_with env fuel this T ctx st") auto
  with 6(1) have c': "c' = ctx" and ext: "extends st st'" by simp_all
  show ?case
  proof (cases r)
    case (Returns a)
    from 6(2) [OF g [symmetric] Returns refl] c'
    have "fst (snd (get_arguments env fuel this Ts ctx st')) = ctx"
      "extends st' (snd (snd (get_arguments env fuel this Ts ctx st')))" by simp_all
    with g Returns c' ext show ?thesis
      by (auto split: prod.splits outcome.splits intro: extends_trans)
  qed (use g c' ext in simp_all)
qed


lemma get_with_frame:
  "get_with env fuel this T c st = (r, c', st') \<Longrightarrow> c' = c \<and> extends st st'"
  using resolution_frame(1) [of env fuel this T c st] by simp

lemma getInstance_frame:
  "getInstance env fuel storage c st = (r, c', st') \<Longrightarrow> c' = c \<and> extends st st'"
  using resolution_frame(2) [of env fuel storage c st] by simp

lemma createInstance_frame:
  "createInstance env fuel storage c st = (r, c', st') \<Longrightarrow> c' = c \<and> extends st st'"
  using resolution_frame(3) [of env fuel storage c st] by simp

lemma invoke_frame:
  "invoke env fuel T c st = (r, c', st') \<Longrightarrow> c' = c \<and> extends st st'"
  using resolution_frame(4) [of env fuel T c st] by simp

lemma get_arguments_frame:
  "get_arguments env fuel this Ts c st = (r, c', st') \<Longrightarrow> c' = c \<and> extends st st'"
  using resolution_frame(5) [of env fuel this Ts c st] by simp

section \<open>Properties: candidate lookup and registration\<close>

lemma findInstanceRetrievers_chain:
  "findInstanceRetrievers cs this acc t = Some rs \<Longrightarrow>
   rs = acc @ concat (map (\<lambda>c. bindings (cs ! c) (typeInfo t)) (parent_chain cs this))"
proof (induction cs this acc t arbitrary: rs rule: findInstanceRetrievers.induct)
  case (1 cs this acc t)
  show ?case
  proof (cases "this < length cs")
    case False
    with "1.prems" show ?thesis by (simp add: findInstanceRetrievers.simps)
  next
    case True
    let ?acc = "acc @ bindings (cs ! this) (typeInfo t)"
    have acc: "(case registrations (cs ! this) (typeInfo t) of
                  Some currentRetrievers \<Rightarrow> acc @ currentRetrievers
                | None \<Rightarrow> acc) = ?acc"
      by (simp add: bindings_def split: option.splits)
    show ?thesis
    proof (cases "parentContainer (cs ! this)")
      case None
      with True "1.prems" acc show ?thesis
        by (simp add: findInstanceRetrievers.simps [of cs this] parent_chain.simps [of cs this])
    next
      case (Some p)
      show ?thesis
      proof (cases "p < this")
        case lt: True
        from "1.prems" True Some lt acc
        have "findInstanceRetrievers cs p ?acc t = Some rs"
          by (simp add: findInstanceRetrievers.simps [of cs this])
        from "1.IH" [OF True refl Some lt, unfolded acc, OF this]
        show ?thesis using True Some lt
          by (simp add: parent_chain.simps [of cs this])
      next
        case False
        with True Some "1.prems" show ?thesis
          by (simp add: findInstanceRetrievers.simps [of cs this])
      qed
    qed
  qed
qed


lemma valid_store_parent:
  "valid_store st \<Longrightarrow> c < length (containers st) \<Longrightarrow>
   parentContainer (containers st ! c) = Some p \<Longrightarrow> p < c"
  by (auto simp: valid_store_def)

lemma findInstanceRetrievers_valid:
  "valid_store st \<Longrightarrow> this < length (containers st) \<Longrightarrow>
   findInstanceRetrievers (containers st) this acc t \<noteq> None"
proof (induction "containers st" this acc t rule: findInstanceRetrievers.induct)
  case (1 this acc t)
  show ?case
  proof (cases "parentContainer (containers st ! this)")
    case None
    with 1(3) show ?thesis by (simp add: findInstanceRetrievers.simps [of _ this])
  next
    case (Some p)
    with 1(2,3) have lt: "p < this" by (simp add: valid_store_parent)
    with 1(3) have "p < length (containers st)" by simp
    from 1(1) [OF 1(3) refl Some lt 1(2) this] Some lt 1(3)
    show ?thesis by (simp add: findInstanceRetrievers.simps [of _ this])
  qed
qed



lemma get_with_candidates:
  assumes "valid_store st" "this < length (containers st)"
  shows "findInstanceRetrievers (containers st) this [] (make_component_type T []) =
         Some (concat (map (\<lambda>c. bindings (containers st ! c) T) (parent_chain (containers st) this)))"
proof -
  from findInstanceRetrievers_valid [OF assms]
  obtain rs where rs: "findInstanceRetrievers (containers st) this [] (make_component_type T []) = Some rs"
    by blast
  from findInstanceRetrievers_chain [OF rs] rs show ?thesis
    by (simp add: make_component_type_def)
qed






subsection \<open>The example programs, evaluated\<close>

lemmas example_defs = empty_state_def new_Container_def ToSelf_def to_def registerType_def
  InSingletonScope_def setSingleton_def Let_def

lemmas resolve_defs = get_def new_InjectionContext_def pushType_def popType_def make_component_type_def
  get_with.simps getInstance.simps createInstance.simps invoke.simps findInstanceRetrievers.simps
  ensureNoCycle_def ensureNoCycle_loop.simps component_type_eq_def new_CircularDependencyFound_def
  new_ComponentNotFoundException_def name_def type_name_def example_env_def example_name_def

lemma hierarchy_state_fields:
  "containers hierarchy_state =
     [\<lparr>parentContainer = None, registrations = [Class 8 \<mapsto> [0], Class 9 \<mapsto> [1]]\<rparr>,
      \<lparr>parentContainer = Some 0, registrations = [Class 8 \<mapsto> [2]]\<rparr>]"
  "storages hierarchy_state =
     [\<lparr>impl = 10, mIsSingleton = False, mInstance = None\<rparr>,
      \<lparr>impl = 9, mIsSingleton = False, mInstance = None\<rparr>,
      \<lparr>impl = 12, mIsSingleton = False, mInstance = None\<rparr>]"
  "objects hierarchy_state = []" "factory_calls hierarchy_state = []"
  by (simp_all add: hierarchy_state_def example_defs numeral_2_eq_2)


lemma valid_hierarchy: "valid_store hierarchy_state"
  by (auto simp: valid_store_def hierarchy_state_fields bindings_def less_Suc_eq split: if_splits)

lemma hierarchy_chain:
  "parent_chain (containers hierarchy_state) (Suc 0) = [Suc 0, 0]"
  "parent_chain (containers hierarchy_state) 0 = [0]"
  by (simp_all add: hierarchy_state_fields parent_chain.simps)

text \<open>
  C4. An identity with no binding in the container nor in any container of its parent
  chain: \<open>get\<close> throws \<open>ComponentNotFoundException\<close>, whose message names the identity by
  its \<open>type_info\<close> name, directly to the caller and with the state as it was.
\<close>

theorem unbound_identity_throws_ComponentNotFound:
  assumes "valid_store st" "this < length (containers st)"
    and "\<forall>c \<in> set (parent_chain (containers st) this). bindings (containers st ! c) T = []"
  shows "get env fuel this T co st =
           (Throws (ComponentNotFoundException
                      (''Component for interface '' @ [CHR 0x27] @ type_info_name env T @
                       [CHR 0x27] @ '' not found'')), co, st)"
proof -
  have "concat (map (\<lambda>c. bindings (containers st ! c) T) (parent_chain (containers st) this)) = []"
    using assms(3) by simp
  with get_with_candidates [OF assms(1,2), of T]
  have "get_with env fuel this T c st =
          (Throws (new_ComponentNotFoundException env (make_component_type T [])), c, st)" for c
    by (simp add: get_with.simps)
  then show ?thesis
    by (cases co)
       (simp_all add: get_def new_ComponentNotFoundException_def name_def make_component_type_def)
qed

theorem unbound_identity_throws_ComponentNotFound_witness:
  "parent_chain (containers hierarchy_state) 1 = [1, 0] \<and>
   bindings (containers hierarchy_state ! 1) (Class 0) = [] \<and>
   bindings (containers hierarchy_state ! 0) (Class 0) = [] \<and>
   get example_env 3 1 (Class 0) None hierarchy_state =
     (Throws (ComponentNotFoundException
                (''Component for interface '' @ [CHR 0x27] @ ''IRunner'' @ [CHR 0x27] @ '' not found'')),
      None, hierarchy_state)"
proof -
  have 1: "1 < length (containers hierarchy_state)" by (simp add: hierarchy_state_fields)
  have 2: "\<forall>c \<in> set (parent_chain (containers hierarchy_state) 1).
             bindings (containers hierarchy_state ! c) (Class 0) = []"
    by (simp add: hierarchy_chain) (simp add: hierarchy_state_fields bindings_def)
  show ?thesis
    using unbound_identity_throws_ComponentNotFound [OF valid_hierarchy 1 2, of example_env 3 None] 2
    by (simp add: hierarchy_chain example_env_def example_name_def)
qed





text \<open>
  C8. Two component identities are equal exactly when their type tokens are the same,
  whatever their display names; the hash of an identity is the hash code of its type
  token alone, so equal identities have equal hashes.
\<close>

theorem component_type_equality_and_hash:
  "(component_type_eq a b \<longleftrightarrow> typeInfo a = typeInfo b) \<and>
   component_type_eq (make_component_type T n1) (make_component_type T n2) \<and>
   component_type_hash env a = type_info_hash_code env (typeInfo a) \<and>
   (component_type_eq a b \<longrightarrow> component_type_hash env a = component_type_hash env b)"
  by (simp add: component_type_eq_def component_type_hash_def make_component_type_def)

theorem component_type_equality_and_hash_witness:
  "component_type_eq (make_component_type (Class 1) ''Cheetah'') (make_component_type (Class 1) []) \<and>
   component_type_hash example_env (make_component_type (Class 1) ''Cheetah'') =
   component_type_hash example_env (make_component_type (Class 1) [])"
  using component_type_equality_and_hash
    [of "make_component_type (Class 1) ''Cheetah''" "make_component_type (Class 1) []" "Class 1"
        "''Cheetah''" "[]" example_env]
  by blast

section \<open>Properties: cycle check, factory calls and lifetimes\<close>

lemma ensureNoCycle_loop_eq:
  "ensureNoCycle_loop env stack i =
     (if \<exists>j. i \<le> j \<and> j < length stack - 1 \<and> typeInfo (stack ! j) = typeInfo (last stack)
      then Some (new_CircularDependencyFound env (last stack)) else None)"
proof (induction env stack i rule: ensureNoCycle_loop.induct)
  case (1 env stack i)
  show ?case
  proof (cases "i < length stack - 1")
    case False
    then show ?thesis by (subst ensureNoCycle_loop.simps) auto
  next
    case True
    show ?thesis
    proof (cases "component_type_eq (stack ! i) (last stack)")
      case eq: True
      with True have "\<exists>j. i \<le> j \<and> j < length stack - 1 \<and> typeInfo (stack ! j) = typeInfo (last stack)"
        by (auto simp: component_type_eq_def)
      with True eq show ?thesis by (subst ensureNoCycle_loop.simps) simp
    next
      case neq: False
      have "(\<exists>j. i \<le> j \<and> j < length stack - 1 \<and> typeInfo (stack ! j) = typeInfo (last stack)) \<longleftrightarrow>
            (\<exists>j. Suc i \<le> j \<and> j < length stack - 1 \<and> typeInfo (stack ! j) = typeInfo (last stack))"
      proof
        assume "\<exists>j. i \<le> j \<and> j < length stack - 1 \<and> typeInfo (stack ! j) = typeInfo (last stack)"
        then obtain j where j: "i \<le> j" "j < length stack - 1"
          "typeInfo (stack ! j) = typeInfo (last stack)" by blast
        with neq have "j \<noteq> i" by (auto simp: component_type_eq_def)
        with j(1) have "Suc i \<le> j" by simp
        with j(2,3) show "\<exists>j. Suc i \<le> j \<and> j < length stack - 1 \<and>
                              typeInfo (stack ! j) = typeInfo (last stack)" by blast
      next
        assume "\<exists>j. Suc i \<le> j \<and> j < length stack - 1 \<and> typeInfo (stack ! j) = typeInfo (last stack)"
        then obtain j where "Suc i \<le> j" "j < length stack - 1"
          "typeInfo (stack ! j) = typeInfo (last stack)" by blast
        then have "i \<le> j \<and> j < length stack - 1 \<and> typeInfo (stack ! j) = typeInfo (last stack)"
          by simp
        then show "\<exists>j. i \<le> j \<and> j < length stack - 1 \<and>
                       typeInfo (stack ! j) = typeInfo (last stack)" by blast
      qed
      with "1.IH" [OF True neq] True neq show ?thesis
        by (subst ensureNoCycle_loop.simps) simp
    qed
  qed
qed

lemma ensureNoCycle_push:
  "ensureNoCycle env (pushType c t) =
     (if typeInfo t \<in> on_stack c then Throws (new_CircularDependencyFound env t) else Returns ())"
proof -
  let ?stack = "componentStack c @ [t]"
  have "(\<exists>j. j < length ?stack - 1 \<and> typeInfo (?stack ! j) = typeInfo (last ?stack)) \<longleftrightarrow>
        typeInfo t \<in> on_stack c"
  proof
    assume "\<exists>j. j < length ?stack - 1 \<and> typeInfo (?stack ! j) = typeInfo (last ?stack)"
    then obtain j where "j < length (componentStack c)" "typeInfo (componentStack c ! j) = typeInfo t"
      by (auto simp: nth_append)
    then have "componentStack c ! j \<in> set (componentStack c)" "typeInfo t = typeInfo (componentStack c ! j)"
      by simp_all
    from this(2,1) show "typeInfo t \<in> on_stack c" unfolding on_stack_def by (rule image_eqI)
  next
    assume "typeInfo t \<in> on_stack c"
    then obtain x where "x \<in> set (componentStack c)" "typeInfo x = typeInfo t"
      by (auto simp: on_stack_def)
    then obtain j where "j < length (componentStack c)" "componentStack c ! j = x"
      by (auto simp: in_set_conv_nth)
    with \<open>typeInfo x = typeInfo t\<close>
    have "j < length ?stack - 1 \<and> typeInfo (?stack ! j) = typeInfo (last ?stack)"
      by (simp add: nth_append)
    then show "\<exists>j. j < length ?stack - 1 \<and> typeInfo (?stack ! j) = typeInfo (last ?stack)"
      by blast
  qed
  then show ?thesis
    by (simp add: ensureNoCycle_def pushType_def ensureNoCycle_loop_eq)
qed

lemma on_stack_push: "on_stack (pushType c t) = insert (typeInfo t) (on_stack c)"
  by (auto simp: on_stack_def pushType_def)


lemma container_new [simp]: "container (new_InjectionContext this t) = this"
  by (simp add: new_InjectionContext_def pushType_def)

lemma container_push [simp]: "container (pushType c t) = container c"
  by (simp add: pushType_def)

lemma calls_off_stack_refl: "calls_off_stack c st st"
  by (simp add: calls_off_stack_def)

lemma calls_off_stack_trans:
  assumes "calls_off_stack c a b" "calls_off_stack c b d" "extends a b"
  shows "calls_off_stack c a d"
proof -
  from assms(1) obtain n1 where n1: "factory_calls b = factory_calls a @ n1"
    "\<forall>x \<in> set n1. x < length (storages a) \<and> Class (impl (storages a ! x)) \<notin> on_stack c"
    unfolding calls_off_stack_def by blast
  from assms(2) obtain n2 where n2: "factory_calls d = factory_calls b @ n2"
    "\<forall>x \<in> set n2. x < length (storages b) \<and> Class (impl (storages b ! x)) \<notin> on_stack c"
    unfolding calls_off_stack_def by blast
  have "\<forall>x \<in> set n2. x < length (storages a) \<and> Class (impl (storages a ! x)) \<notin> on_stack c"
    using n2(2) extendsD(2,3) [OF assms(3)] by auto
  with n1 n2(1) have "factory_calls d = factory_calls a @ (n1 @ n2) \<and>
    (\<forall>x \<in> set (n1 @ n2). x < length (storages a) \<and> Class (impl (storages a ! x)) \<notin> on_stack c)"
    by auto
  then show ?thesis unfolding calls_off_stack_def by blast
qed

lemma calls_off_stack_cache:
  "calls_off_stack c st st' \<Longrightarrow> calls_off_stack c st (st'\<lparr>storages := x\<rparr>)"
  by (simp add: calls_off_stack_def)

lemma calls_off_stack_object:
  "calls_off_stack c st st' \<Longrightarrow> calls_off_stack c st (st'\<lparr>objects := x\<rparr>)"
  by (simp add: calls_off_stack_def)

lemma calls_off_stack_push:
  assumes "calls_off_stack (pushType c t) (st\<lparr>factory_calls := factory_calls st @ [s]\<rparr>) st'"
    and "s < length (storages st)" "Class (impl (storages st ! s)) \<notin> on_stack c"
  shows "calls_off_stack c st st'"
proof -
  from assms(1) obtain n where n: "factory_calls st' = (factory_calls st @ [s]) @ n"
    "\<forall>x \<in> set n. x < length (storages st) \<and> Class (impl (storages st ! x)) \<notin> on_stack (pushType c t)"
    unfolding calls_off_stack_def by auto
  have "on_stack c \<subseteq> on_stack (pushType c t)" by (auto simp: on_stack_def pushType_def)
  with n assms(2,3) have "factory_calls st' = factory_calls st @ (s # n) \<and>
    (\<forall>x \<in> set (s # n). x < length (storages st) \<and> Class (impl (storages st ! x)) \<notin> on_stack c)"
    by auto
  then show ?thesis unfolding calls_off_stack_def by blast
qed

lemma resolution_calls:
  "calls_off_stack context st (snd (snd (get_with env fuel this T context st)))"
  "storage < length (storages st) \<longrightarrow>
   calls_off_stack context st (snd (snd (getInstance env fuel storage context st)))"
  "storage < length (storages st) \<longrightarrow>
   calls_off_stack context st (snd (snd (createInstance env fuel storage context st)))"
  "calls_off_stack context st (snd (snd (invoke env fuel TInstance context st)))"
  "calls_off_stack context st (snd (snd (get_arguments env fuel this Ts context st)))"
proof (induction env fuel this T "context" st and env fuel storage "context" st
         and env fuel storage "context" st and env fuel TInstance "context" st
         and env fuel this Ts "context" st
       rule: get_with_getInstance_createInstance_invoke_get_arguments.induct)
  case (1 env fuel this TInterface ctx st)
  then show ?case
    by (auto simp: get_with.simps calls_off_stack_refl split: option.splits list.splits)
next
  case (2 env fuel storage ctx st)
  show ?case
  proof (intro impI)
    assume len: "storage < length (storages st)"
    show "calls_off_stack ctx st (snd (snd (getInstance env fuel storage ctx st)))"
    proof (cases "mIsSingleton (storages st ! storage)")
      case False
      with 2(1) len show ?thesis by (simp add: getInstance.simps)
    next
      case True
      show ?thesis
      proof (cases "mInstance (storages st ! storage)")
        case (Some a)
        with True show ?thesis by (simp add: getInstance.simps calls_off_stack_refl)
      next
        case None
        with 2(2) True len show ?thesis
          by (auto simp: getInstance.simps calls_off_stack_cache split: prod.splits outcome.splits)
      qed
    qed
  qed
next
  case (3 env fuel storage ctx st)
  let ?t = "make_component_type (Class (impl (storages st ! storage))) (type_name env (impl (storages st ! storage)))"
  show ?case
  proof (intro impI)
    assume len: "storage < length (storages st)"
    show "calls_off_stack ctx st (snd (snd (createInstance env fuel storage ctx st)))"
    proof (cases "Class (impl (storages st ! storage)) \<in> on_stack ctx")
      case True
      then show ?thesis
        by (simp add: createInstance.simps Let_def ensureNoCycle_push make_component_type_def
            calls_off_stack_refl)
    next
      case False
      then have ok: "ensureNoCycle env (pushType ctx ?t) = Returns ()"
        by (simp add: ensureNoCycle_push make_component_type_def)
      show ?thesis
      proof (cases fuel)
        case 0
        with ok show ?thesis by (simp add: createInstance.simps Let_def calls_off_stack_refl)
      next
        case (Suc n)
        from 3 [OF refl refl ok Suc]
        have "calls_off_stack ctx st
           (snd (snd (invoke env n (impl (storages st ! storage)) (pushType ctx ?t)
                   (st\<lparr>factory_calls := factory_calls st @ [storage]\<rparr>))))"
          using len False by (rule calls_off_stack_push)
        with ok Suc show ?thesis
          by (auto simp: createInstance.simps Let_def split: prod.splits)
      qed
    qed
  qed
next
  case (4 env fuel TInstance ctx st)
  then show ?case
    by (auto simp: invoke.simps calls_off_stack_object split: prod.splits outcome.splits)
next
  case (5 env fuel this ctx st)
  then show ?case by (simp add: calls_off_stack_refl)
next
  case (6 env fuel this T Ts ctx st)
  obtain r c' st' where g: "get_with env fuel this T ctx st = (r, c', st')"
    by (cases "get_with env fuel this T ctx st") auto
  from get_with_frame [OF g] have c': "c' = ctx" and ext: "extends st st'" by simp_all
  from 6(1) g have 1: "calls_off_stack ctx st st'" by simp
  show ?case
  proof (cases r)
    case (Returns a)
    from 6(2) [OF g [symmetric] Returns refl] c'
    have "calls_off_stack ctx st' (snd (snd (get_arguments env fuel this Ts ctx st')))" by simp
    from calls_off_stack_trans [OF 1 this ext] g Returns c' show ?thesis
      by (auto split: prod.splits outcome.splits)
  qed (use g 1 in simp_all)
qed

lemma createInstance_returns:
  assumes ci: "createInstance env fuel s c st = (Returns a, c', st')"
    and len: "s < length (storages st)"
  shows "c' = c" "extends st st'" "Class (impl (storages st ! s)) \<notin> on_stack c"
    "length (objects st) \<le> a" "a < length (objects st')"
    "object_class (objects st' ! a) = impl (storages st ! s)"
    "count_list (factory_calls st') s = Suc (count_list (factory_calls st) s)"
proof -
  let ?t = "make_component_type (Class (impl (storages st ! s))) (type_name env (impl (storages st ! s)))"
  let ?st = "st\<lparr>factory_calls := factory_calls st @ [s]\<rparr>"
  from createInstance_frame [OF ci] show "c' = c" "extends st st'" by simp_all
  show off: "Class (impl (storages st ! s)) \<notin> on_stack c"
    using ci by (auto simp: createInstance.simps Let_def ensureNoCycle_push make_component_type_def
        split: if_splits)
  then have ok: "ensureNoCycle env (pushType c ?t) = Returns ()"
    by (simp add: ensureNoCycle_push make_component_type_def)
  from ci ok obtain n where fuel: "fuel = Suc n"
    by (cases fuel) (simp_all add: createInstance.simps Let_def)
  from ci ok fuel obtain c2 where inv: "invoke env n (impl (storages st ! s)) (pushType c ?t) ?st = (Returns a, c2, st')"
    by (auto simp: createInstance.simps Let_def split: prod.splits)
  obtain r3 c3 st3 where ga: "get_arguments env n (container (pushType c ?t))
       (ConstructorTypedef env (impl (storages st ! s))) (pushType c ?t) ?st = (r3, c3, st3)"
    by (metis prod_cases3)
  from inv ga obtain args where r3: "r3 = Returns args" and a: "a = length (objects st3)"
    and st': "st' = st3\<lparr>objects := objects st3 @
                  [\<lparr>object_class = impl (storages st ! s), constructor_arguments = args\<rparr>]\<rparr>"
    by (cases r3) (auto simp: invoke.simps)
  from get_arguments_frame [OF ga] have "extends ?st st3" by simp
  from extendsD(7) [OF this] a show "length (objects st) \<le> a" by auto
  from a st' show "a < length (objects st')" "object_class (objects st' ! a) = impl (storages st ! s)"
    by simp_all
  have "calls_off_stack (pushType c ?t) ?st st'"
    using resolution_calls(4) [of "pushType c ?t" ?st env n "impl (storages st ! s)"] inv by simp
  then obtain new where new: "factory_calls st' = (factory_calls st @ [s]) @ new"
    "\<forall>x \<in> set new. Class (impl (storages st ! x)) \<notin> on_stack (pushType c ?t)"
    unfolding calls_off_stack_def by auto
  have "s \<notin> set new"
    using new(2) by (auto simp: on_stack_push make_component_type_def)
  then have "count_list new s = 0" by (simp add: count_list_0_iff)
  with new(1) show "count_list (factory_calls st') s = Suc (count_list (factory_calls st) s)"
    by simp
qed

lemma getInstance_cached:
  "mIsSingleton (storages st ! s) \<Longrightarrow> mInstance (storages st ! s) = Some a \<Longrightarrow>
   getInstance env fuel s c st = (Returns a, c, st)"
  by (simp add: getInstance.simps)

lemma getInstance_transient:
  "\<not> mIsSingleton (storages st ! s) \<Longrightarrow>
   getInstance env fuel s c st = createInstance env fuel s c st"
  by (simp add: getInstance.simps)

lemma getInstance_singleton_first:
  assumes gi: "getInstance env fuel s c st = (Returns a, c', st')"
    and len: "s < length (storages st)"
    and sing: "mIsSingleton (storages st ! s)" and none: "mInstance (storages st ! s) = None"
  shows "mInstance (storages st' ! s) = Some a" "length (objects st) \<le> a"
    "count_list (factory_calls st') s = Suc (count_list (factory_calls st) s)"
proof -
  obtain r1 c1 st1 where ci: "createInstance env fuel s c st = (r1, c1, st1)"
    by (metis prod_cases3)
  from gi ci sing none have r1: "r1 = Returns a"
    and st': "st' = st1\<lparr>storages := (storages st1)[s := (storages st1 ! s)\<lparr>mInstance := Some a\<rparr>]\<rparr>"
    by (cases r1; simp add: getInstance.simps)+
  note R = createInstance_returns [OF ci [unfolded r1] len]
  from extendsD(2) [OF R(2)] len st' show "mInstance (storages st' ! s) = Some a" by simp
  from R(4) show "length (objects st) \<le> a" .
  from R(7) st' show "count_list (factory_calls st') s = Suc (count_list (factory_calls st) s)"
    by simp
qed

lemma first_candidate_containers:
  "containers st' = containers st \<Longrightarrow> first_candidate st' this T = first_candidate st this T"
  by (simp add: first_candidate_def)

lemma get_with_first_candidate:
  "first_candidate st this T = Some s \<Longrightarrow>
   get_with env fuel this T c st =
     (if s < length (storages st) then getInstance env fuel s c st else (Undefined, c, st))"
  by (auto simp: first_candidate_def get_with.simps split: option.splits list.splits)

lemma get_top_level:
  "get env fuel this T None st = (r, co, st') \<Longrightarrow>
   \<exists>c'. get_with env fuel this T
          (new_InjectionContext this (make_component_type Unspecified_component ''Unspecified'')) st
        = (r, c', st')"
  by (auto simp: get_def Let_def split: prod.splits)

lemma get_returns:
  assumes "first_candidate st this T = Some s"
    and "get env fuel this T None st = (Returns a, co, st')"
  shows "s < length (storages st) \<and>
         (\<exists>c. getInstance env fuel s c st = (Returns a, c, st'))"
proof -
  from get_top_level [OF assms(2)] obtain c' where
    g: "get_with env fuel this T
          (new_InjectionContext this (make_component_type Unspecified_component ''Unspecified'')) st
        = (Returns a, c', st')" by blast
  from g get_with_first_candidate [OF assms(1)] have len: "s < length (storages st)"
    by (auto split: if_splits)
  with g get_with_first_candidate [OF assms(1)] get_with_frame [OF g] show ?thesis by auto
qed

lemma simple_state_fields:
  "containers simple_state = [\<lparr>parentContainer = None, registrations = [Class 0 \<mapsto> [0]]\<rparr>]"
  "storages simple_state = [\<lparr>impl = 1, mIsSingleton = False, mInstance = None\<rparr>]"
  "objects simple_state = []" "factory_calls simple_state = []"
  by (simp_all add: simple_state_def example_defs)

lemma singleton_state_fields:
  "containers singleton_state = [\<lparr>parentContainer = None, registrations = [Class 0 \<mapsto> [0]]\<rparr>]"
  "storages singleton_state = [\<lparr>impl = 1, mIsSingleton = True, mInstance = None\<rparr>]"
  "objects singleton_state = []" "factory_calls singleton_state = []"
  by (simp_all add: singleton_state_def example_defs)

text \<open>
  C7. Every construction attempt pushes the frame of the implementation on the context
  and pops exactly that frame on every way out. \<open>createInstance\<close> puts the frame of its
  implementation type on top of the stack it was given; when that type is on the stack
  already it throws, and otherwise it runs the factory under the stack with that frame on
  top; the factory hands the stack back with the frame still on top, and on each of these
  ways out \<open>createInstance\<close> returns the context it was given. So after \<open>createInstance\<close>,
  after a nested \<open>get\<close> and after a top-level \<open>get\<close>, whatever their outcome, the context
  stack is what it was before the call and the registration tables of all containers are
  unchanged.
\<close>

theorem context_and_registrations_restored:
  "createInstance env fuel storage c st =
     (let frame = make_component_type (Class (impl (storages st ! storage)))
                    (type_name env (impl (storages st ! storage)))
      in if typeInfo frame \<in> on_stack c
         then (Throws (new_CircularDependencyFound env frame), c, st)
         else case fuel of
                0 \<Rightarrow> (OutOfFuel, c, st)
              | Suc fuel' \<Rightarrow>
                  (case invoke env fuel' (impl (storages st ! storage)) (pushType c frame)
                          (st\<lparr>factory_calls := factory_calls st @ [storage]\<rparr>) of
                     (r, c', st') \<Rightarrow> (r, c, st'))) \<and>
   componentStack (pushType c t) = componentStack c @ [t] \<and>
   fst (snd (invoke env fuel TInstance (pushType c t) st)) = pushType c t \<and>
   popType (pushType c t) = c \<and>
   fst (snd (createInstance env fuel storage c st)) = c \<and>
   containers (snd (snd (createInstance env fuel storage c st))) = containers st \<and>
   fst (snd (get_with env fuel this T c st)) = c \<and>
   containers (snd (snd (get_with env fuel this T c st))) = containers st \<and>
   fst (snd (get env fuel this T (Some c) st)) = Some c \<and>
   containers (snd (snd (get env fuel this T (Some c) st))) = containers st \<and>
   containers (snd (snd (get env fuel this T None st))) = containers st"
proof -
  let ?frame = "make_component_type (Class (impl (storages st ! storage)))
                    (type_name env (impl (storages st ! storage)))"
  have guard: "createInstance env fuel storage c st =
     (let frame = ?frame
      in if typeInfo frame \<in> on_stack c
         then (Throws (new_CircularDependencyFound env frame), c, st)
         else case fuel of
                0 \<Rightarrow> (OutOfFuel, c, st)
              | Suc fuel' \<Rightarrow>
                  (case invoke env fuel' (impl (storages st ! storage)) (pushType c frame)
                          (st\<lparr>factory_calls := factory_calls st @ [storage]\<rparr>) of
                     (r, c', st') \<Rightarrow> (r, c, st')))"
  proof (cases "typeInfo ?frame \<in> on_stack c")
    case True
    then show ?thesis
      by (simp add: createInstance.simps Let_def ensureNoCycle_push)
  next
    case False
    show ?thesis
    proof (cases fuel)
      case 0
      with False show ?thesis by (simp add: createInstance.simps Let_def ensureNoCycle_push)
    next
      case (Suc n)
      with False show ?thesis
        by (auto simp: createInstance.simps Let_def ensureNoCycle_push
            split: prod.splits dest!: invoke_frame)
    qed
  qed
  have push: "componentStack (pushType c t) = componentStack c @ [t]"
    by (simp add: pushType_def)
  have inv: "fst (snd (invoke env fuel TInstance (pushType c t) st)) = pushType c t"
    using resolution_frame(4) [of env fuel TInstance "pushType c t" st] by simp
  have g: "containers (snd (snd (get_with env fuel this T c' st))) = containers st" for c'
    using resolution_frame(1) [of env fuel this T c' st] by (simp add: extendsD(1))
  have "containers (snd (snd (createInstance env fuel storage c st))) = containers st"
    using resolution_frame(3) [of env fuel storage c st] by (simp add: extendsD(1))
  moreover have "fst (snd (get env fuel this T (Some c) st)) = Some c"
    using resolution_frame(1) [of env fuel this T c st]
    by (auto simp: get_def split: prod.splits)
  moreover have "containers (snd (snd (get env fuel this T co st))) = containers st" for co
    by (cases co)
      (auto simp: get_def Let_def split: prod.splits dest!: get_with_frame dest: extendsD(1))
  ultimately show ?thesis
    using g resolution_frame(1,3) push inv by (simp only: guard [symmetric] pop_push)
qed

text \<open>
  C2. A binding in singleton scope that answers its identity: two consecutive successful
  top-level \<open>get\<close> calls for the identity on the same container return the same instance,
  the second call changes nothing, and over both calls the factory of the binding is
  entered at most once (exactly once when nothing was cached before the first call);
  every later \<open>getInstance\<close> of the binding returns that instance and changes nothing.
\<close>

theorem singleton_resolves_to_same_instance:
  assumes "first_candidate st this T = Some s" and "mIsSingleton (storages st ! s)"
    and "get env fuel this T None st = (Returns a, co, st1)"
    and "get env fuel' this T None st1 = (Returns b, co', st2)"
  shows "a = b \<and> st2 = st1 \<and>
         count_list (factory_calls st2) s \<le> Suc (count_list (factory_calls st) s) \<and>
         (mInstance (storages st ! s) = None \<longrightarrow>
            count_list (factory_calls st2) s = Suc (count_list (factory_calls st) s)) \<and>
         (\<forall>st' k c. extends st1 st' \<longrightarrow> getInstance env k s c st' = (Returns a, c, st'))"
proof -
  from get_returns [OF assms(1,3)] obtain c where len: "s < length (storages st)"
    and g1: "getInstance env fuel s c st = (Returns a, c, st1)" by blast
  from getInstance_frame [OF g1] have ext: "extends st st1" by simp
  have cached: "mInstance (storages st1 ! s) = Some a \<and>
     count_list (factory_calls st1) s \<le> Suc (count_list (factory_calls st) s) \<and>
     (mInstance (storages st ! s) = None \<longrightarrow>
            count_list (factory_calls st1) s = Suc (count_list (factory_calls st) s))"
  proof (cases "mInstance (storages st ! s)")
    case None
    from getInstance_singleton_first [OF g1 len assms(2) None] None show ?thesis by simp
  next
    case (Some x)
    with g1 assms(2) show ?thesis by (simp add: getInstance.simps)
  qed
  have sing1: "mIsSingleton (storages st1 ! s)"
    using extendsD(4) [OF ext len] assms(2) by simp
  have fc1: "first_candidate st1 this T = Some s"
    using first_candidate_containers [OF extendsD(1) [OF ext]] assms(1) by simp
  from get_returns [OF fc1 assms(4)] obtain c2 where
    "getInstance env fuel' s c2 st1 = (Returns b, c2, st2)" by blast
  with getInstance_cached [OF sing1, of a env fuel' c2] cached
  have "b = a" "st2 = st1" by simp_all
  moreover have "getInstance env k s c' st' = (Returns a, c', st')" if "extends st1 st'" for st' k c'
  proof -
    have len1: "s < length (storages st1)" using extendsD(2) [OF ext] len by simp
    from extendsD(4) [OF that len1] sing1 have "mIsSingleton (storages st' ! s)" by simp
    moreover from cached extendsD(5) [OF that len1] have "mInstance (storages st' ! s) = Some a"
      by simp
    ultimately show ?thesis by (rule getInstance_cached)
  qed
  ultimately show ?thesis using cached by simp
qed

theorem singleton_resolves_to_same_instance_witness:
  "(let r1 = get example_env 1 0 (Class 0) None singleton_state;
        r2 = get example_env 1 0 (Class 0) None (snd (snd r1))
    in fst r1 = Returns 0 \<and> fst r2 = Returns 0 \<and>
       factory_calls (snd (snd r2)) = [0] \<and> mInstance (storages singleton_state ! 0) = None)"
proof -
  define st1 where "st1 = snd (snd (get example_env 1 0 (Class 0) None singleton_state))"
  define st2 where "st2 = snd (snd (get example_env 1 0 (Class 0) None st1))"
  have fc: "first_candidate singleton_state 0 (Class 0) = Some 0"
    by (simp add: first_candidate_def singleton_state_fields findInstanceRetrievers.simps
        make_component_type_def)
  have sing: "mIsSingleton (storages singleton_state ! 0)"
    by (simp add: singleton_state_fields)
  have r1: "get example_env 1 0 (Class 0) None singleton_state = (Returns 0, None, st1)"
    and f1: "factory_calls st1 = [0]"
    and s1: "containers st1 = containers singleton_state"
      "storages st1 = [\<lparr>impl = 1, mIsSingleton = True, mInstance = Some 0\<rparr>]"
    unfolding st1_def by (simp_all add: singleton_state_fields resolve_defs Let_def)
  have r2: "get example_env 1 0 (Class 0) None st1 = (Returns 0, None, st2)"
    unfolding st2_def by (simp add: s1 singleton_state_fields resolve_defs Let_def)
  from singleton_resolves_to_same_instance [OF fc sing r1 r2] f1
  have "factory_calls st2 = [0]" by blast
  with r1 r2 show ?thesis by (simp add: Let_def singleton_state_fields)
qed

text \<open>
  C3. A transient binding that answers its identity: two consecutive successful top-level
  \<open>get\<close> calls for the identity each enter the factory of the binding once and return two
  different objects of the implementation class.
\<close>

theorem transient_resolves_to_distinct_instances:
  assumes "first_candidate st this T = Some s" and "\<not> mIsSingleton (storages st ! s)"
    and "get env fuel this T None st = (Returns a, co, st1)"
    and "get env fuel' this T None st1 = (Returns b, co', st2)"
  shows "a \<noteq> b \<and> a < length (objects st2) \<and> b < length (objects st2) \<and>
         object_class (objects st2 ! a) = impl (storages st ! s) \<and>
         object_class (objects st2 ! b) = impl (storages st ! s) \<and>
         count_list (factory_calls st1) s = Suc (count_list (factory_calls st) s) \<and>
         count_list (factory_calls st2) s = Suc (count_list (factory_calls st1) s)"
proof -
  from get_returns [OF assms(1,3)] obtain c where len: "s < length (storages st)"
    and g1: "getInstance env fuel s c st = (Returns a, c, st1)" by blast
  note A = createInstance_returns [OF g1 [unfolded getInstance_transient [OF assms(2)]] len]
  have len1: "s < length (storages st1)" using extendsD(2) [OF A(2)] len by simp
  have tr1: "\<not> mIsSingleton (storages st1 ! s)"
    using extendsD(4) [OF A(2) len] assms(2) by simp
  have fc1: "first_candidate st1 this T = Some s"
    using first_candidate_containers [OF extendsD(1) [OF A(2)]] assms(1) by simp
  from get_returns [OF fc1 assms(4)] obtain c2 where
    g2: "getInstance env fuel' s c2 st1 = (Returns b, c2, st2)" by blast
  note B = createInstance_returns [OF g2 [unfolded getInstance_transient [OF tr1]] len1]
  from extendsD(7) [OF B(2)] obtain new where new: "objects st2 = objects st1 @ new" by blast
  from A(5) B(4) have "a \<noteq> b" by simp
  moreover from A(5) new have "a < length (objects st2)" "objects st2 ! a = objects st1 ! a"
    by (simp_all add: nth_append)
  moreover have "impl (storages st1 ! s) = impl (storages st ! s)"
    using extendsD(3) [OF A(2) len] .
  ultimately show ?thesis using A(6,7) B(5,6,7) by simp
qed

theorem transient_resolves_to_distinct_instances_witness:
  "(let r1 = get example_env 1 0 (Class 0) None simple_state;
        r2 = get example_env 1 0 (Class 0) None (snd (snd r1))
    in fst r1 = Returns 0 \<and> fst r2 = Returns 1 \<and> (0::nat) \<noteq> 1 \<and>
       object_class (objects (snd (snd r2)) ! 0) = 1 \<and>
       object_class (objects (snd (snd r2)) ! 1) = 1 \<and>
       count_list (factory_calls (snd (snd r1))) 0 = 1 \<and>
       count_list (factory_calls (snd (snd r2))) 0 = 2)"
proof -
  define st1 where "st1 = snd (snd (get example_env 1 0 (Class 0) None simple_state))"
  define st2 where "st2 = snd (snd (get example_env 1 0 (Class 0) None st1))"
  have fc: "first_candidate simple_state 0 (Class 0) = Some 0"
    by (simp add: first_candidate_def simple_state_fields findInstanceRetrievers.simps
        make_component_type_def)
  have tr: "\<not> mIsSingleton (storages simple_state ! 0)"
    by (simp add: simple_state_fields)
  have r1: "get example_env 1 0 (Class 0) None simple_state = (Returns 0, None, st1)"
    and s1: "containers st1 = containers simple_state" "storages st1 = storages simple_state"
      "objects st1 = [\<lparr>object_class = 1, constructor_arguments = []\<rparr>]"
    unfolding st1_def by (simp_all add: simple_state_fields resolve_defs Let_def)
  have r2: "get example_env 1 0 (Class 0) None st1 = (Returns 1, None, st2)"
    unfolding st2_def by (simp add: s1 simple_state_fields resolve_defs Let_def)
  have fcs: "count_list (factory_calls simple_state) 0 = 0" "impl (storages simple_state ! 0) = 1"
    by (simp_all add: simple_state_fields)
  from transient_resolves_to_distinct_instances [OF fc tr r1 r2] r1 r2 fcs
  show ?thesis by (simp add: Let_def)
qed

text \<open>
  C10. \<open>InSingletonScope\<close> called after a transient storage has been resolved twice: the
  two earlier instances are distinct and nothing was cached for them, also right after the
  call; the next successful \<open>getInstance\<close> enters the factory once more, returns a third,
  new object and caches it; from then on every \<open>getInstance\<close>, in that state and in any
  state later resolutions lead to, returns that object and changes nothing.
\<close>

theorem late_InSingletonScope_is_not_retroactive:
  assumes len: "s < length (storages st)" and tr: "\<not> mIsSingleton (storages st ! s)"
    and none: "mInstance (storages st ! s) = None"
    and g1: "getInstance env f1 s c st = (Returns a, c1, st1)"
    and g2: "getInstance env f2 s c1 st1 = (Returns b, c2, st2)"
    and g3: "getInstance env f3 s c2 (InSingletonScope s st2) = (Returns d, c3, st3)"
  shows "a \<noteq> b \<and> mInstance (storages st2 ! s) = None \<and>
         mInstance (storages (InSingletonScope s st2) ! s) = None \<and>
         d \<noteq> a \<and> d \<noteq> b \<and> length (objects st2) \<le> d \<and>
         count_list (factory_calls st3) s = Suc (count_list (factory_calls st2) s) \<and>
         mInstance (storages st3 ! s) = Some d \<and>
         (\<forall>st4 f c'. extends st3 st4 \<longrightarrow> getInstance env f s c' st4 = (Returns d, c', st4))"
proof -
  note A = createInstance_returns [OF g1 [unfolded getInstance_transient [OF tr]] len]
  have len1: "s < length (storages st1)" using extendsD(2) [OF A(2)] len by simp
  have tr1: "\<not> mIsSingleton (storages st1 ! s)" using extendsD(4) [OF A(2) len] tr by simp
  have none1: "mInstance (storages st1 ! s) = None" using extendsD(6) [OF A(2) len tr] none by simp
  note B = createInstance_returns [OF g2 [unfolded getInstance_transient [OF tr1]] len1]
  have len2: "s < length (storages st2)" using extendsD(2) [OF B(2)] len1 by simp
  have none2: "mInstance (storages st2 ! s) = None"
    using extendsD(6) [OF B(2) len1 tr1] none1 by simp
  let ?st = "InSingletonScope s st2"
  have S: "s < length (storages ?st)" "mIsSingleton (storages ?st ! s)"
    "mInstance (storages ?st ! s) = None" "objects ?st = objects st2"
    "factory_calls ?st = factory_calls st2"
    using len2 none2 by (simp_all add: InSingletonScope_def setSingleton_def)
  note D = getInstance_singleton_first [OF g3 S(1,2,3)]
  from getInstance_frame [OF g3] have ext3: "extends ?st st3" by simp
  have sing3: "mIsSingleton (storages st3 ! s)" using extendsD(4) [OF ext3 S(1)] S(2) by simp
  have len3: "s < length (storages st3)" using extendsD(2) [OF ext3] S(1) by simp
  from extendsD(7) [OF B(2)] A(5) have a2: "a < length (objects st2)" by auto
  have later: "getInstance env f s c' st4 = (Returns d, c', st4)" if "extends st3 st4" for st4 f c'
  proof -
    from extendsD(4) [OF that len3] sing3 have "mIsSingleton (storages st4 ! s)" by simp
    moreover from extendsD(5) [OF that len3 D(1)] have "mInstance (storages st4 ! s) = Some d" .
    ultimately show ?thesis by (rule getInstance_cached)
  qed
  from A(5) B(4) have "a \<noteq> b" by simp
  moreover from D(2) S(4) a2 B(5) have "d \<noteq> a" "d \<noteq> b" "length (objects st2) \<le> d" by simp_all
  ultimately show ?thesis using none2 S(3) D(1,3) S(5) later by simp
qed

theorem late_InSingletonScope_is_not_retroactive_witness:
  "(let c = new_InjectionContext 0 (make_component_type Unspecified_component ''Unspecified'');
        r1 = getInstance example_env 1 0 c simple_state;
        r2 = getInstance example_env 1 0 c (snd (snd r1));
        r3 = getInstance example_env 1 0 c (InSingletonScope 0 (snd (snd r2)));
        r4 = getInstance example_env 1 0 c (snd (snd r3))
    in fst r1 = Returns 0 \<and> fst r2 = Returns 1 \<and> fst r3 = Returns 2 \<and> fst r4 = Returns 2 \<and>
       mInstance (storages (snd (snd r2)) ! 0) = None \<and>
       mInstance (storages (snd (snd r3)) ! 0) = Some 2 \<and>
       snd (snd r4) = snd (snd r3))"
proof -
  define c where "c = new_InjectionContext 0 (make_component_type Unspecified_component ''Unspecified'')"
  define st1 where "st1 = snd (snd (getInstance example_env 1 0 c simple_state))"
  define st2 where "st2 = snd (snd (getInstance example_env 1 0 c st1))"
  define st3 where "st3 = snd (snd (getInstance example_env 1 0 c (InSingletonScope 0 st2)))"
  have h: "0 < length (storages simple_state)" "\<not> mIsSingleton (storages simple_state ! 0)"
    "mInstance (storages simple_state ! 0) = None"
    by (simp_all add: simple_state_fields)
  have r1: "getInstance example_env 1 0 c simple_state = (Returns 0, c, st1)"
    and s1: "storages st1 = storages simple_state"
      "objects st1 = [\<lparr>object_class = 1, constructor_arguments = []\<rparr>]"
    unfolding st1_def c_def by (simp_all add: simple_state_fields resolve_defs Let_def)
  have r2: "getInstance example_env 1 0 c st1 = (Returns 1, c, st2)"
    and s2: "storages st2 = storages simple_state"
      "objects st2 = [\<lparr>object_class = 1, constructor_arguments = []\<rparr>,
                      \<lparr>object_class = 1, constructor_arguments = []\<rparr>]"
    unfolding st2_def c_def by (simp_all add: s1 simple_state_fields resolve_defs Let_def)
  have r3: "getInstance example_env 1 0 c (InSingletonScope 0 st2) = (Returns 2, c, st3)"
    unfolding st3_def c_def
    by (simp add: s2 simple_state_fields resolve_defs Let_def InSingletonScope_def setSingleton_def)
  from late_InSingletonScope_is_not_retroactive [OF h r1 r2 r3] extends_refl [of st3]
  have "mInstance (storages st2 ! 0) = None" "mInstance (storages st3 ! 0) = Some 2"
    "getInstance example_env 1 0 c st3 = (Returns 2, c, st3)"
    by blast+
  with r1 r2 r3 show ?thesis by (simp add: Let_def c_def [symmetric])
qed



section \<open>Properties: termination and cycles\<close>

lemma completes_simps [simp]:
  "completes (Returns a)" "completes (Throws e)" "\<not> completes Undefined" "\<not> completes OutOfFuel"
  by (simp_all add: completes_def)





lemma finite_implementation_types [simp]: "finite (implementation_types st)"
  by (simp add: implementation_types_def)





















lemma circular_state_throws:
  "fst (get example_env 3 0 (Class 5) None circular_state) =
     Throws (CircularDependencyFound
               (''Found circular dependency on object '' @ [CHR 0x27] @ ''Start'' @ [CHR 0x27]))"
  by (simp add: circular_state_def example_defs resolve_defs numeral_2_eq_2 numeral_3_eq_3)










end
